theory Spec2Isabelle
  imports Complex_Main "HOL-Library.Sublist"
begin

section \<open>Python strings\<close>

text \<open>
  A Python \<open>str\<close> is a sequence of Unicode code points. A code point is a natural number;
  an ASCII literal of the source is written \<open>str ''...''\<close>.
\<close>

type_synonym pystr = "nat list"

definition str :: "string \<Rightarrow> pystr" where
  "str s = map of_char s"

text \<open>
  \<open>str.isspace\<close>, which is also the class \<open>\s\<close> of a \<open>str\<close> pattern and the set that
  \<open>str.strip()\<close> removes: the 29 white-space code points of CPython.
\<close>

definition is_space :: "nat \<Rightarrow> bool" where
  "is_space c =
     ((9 \<le> c \<and> c \<le> 13) \<or> (28 \<le> c \<and> c \<le> 32) \<or> c = 133 \<or> c = 160 \<or> c = 5760
      \<or> (8192 \<le> c \<and> c \<le> 8202) \<or> c = 8232 \<or> c = 8233 \<or> c = 8239 \<or> c = 8287
      \<or> c = 12288)"

text \<open>
  The class \<open>\w\<close> of a \<open>str\<close> pattern: the underscore and every alphanumeric code point.
  On ASCII these are the digits and the letters. Beyond ASCII the answer is a table of the
  Python runtime (more than 130000 code points); it is the parameter \<open>U\<close>.
\<close>

definition is_word :: "(nat \<Rightarrow> bool) \<Rightarrow> nat \<Rightarrow> bool" where
  "is_word U c =
     (if c < 128
      then (48 \<le> c \<and> c \<le> 57) \<or> (65 \<le> c \<and> c \<le> 90) \<or> c = 95 \<or> (97 \<le> c \<and> c \<le> 122)
      else U c)"

text \<open>The class \<open>[\w\-\.]\<close>.\<close>

definition is_token :: "(nat \<Rightarrow> bool) \<Rightarrow> nat \<Rightarrow> bool" where
  "is_token U c = (is_word U c \<or> c = 45 \<or> c = 46)"

text \<open>\<open>str.strip()\<close>\<close>

definition strip :: "pystr \<Rightarrow> pystr" where
  "strip s = rev (dropWhile is_space (rev (dropWhile is_space s)))"

text \<open>\<open>pat in s\<close> on strings: \<open>pat\<close> occurs in \<open>s\<close> as a contiguous substring.\<close>

fun contains :: "pystr \<Rightarrow> pystr \<Rightarrow> bool" where
  "contains [] pat = (pat = [])"
| "contains (c # cs) pat = (prefix pat (c # cs) \<or> contains cs pat)"

section \<open>The regular expressions of the source\<close>

text \<open>
  Each pattern of the source is matched by a scanner that does what \<open>re.search\<close> and
  \<open>re.sub\<close> do with it: the leftmost match is taken, \<open>re.sub\<close> resumes after the end of
  a match, and a position with no match keeps its character. None of the patterns
  matches the empty string.
\<close>

text \<open>The text after the first occurrence of a literal, if it occurs.\<close>

fun after_first :: "pystr \<Rightarrow> pystr \<Rightarrow> pystr option" where
  "after_first pat [] = (if pat = [] then Some [] else None)"
| "after_first pat (c # cs) =
     (if prefix pat (c # cs) then Some (drop (length pat) (c # cs))
      else after_first pat cs)"

lemma after_first_length: "after_first pat s = Some r \<Longrightarrow> length r \<le> length s"
  by (induction s) (auto split: if_splits)

definition FINAL_MARK :: pystr where
  "FINAL_MARK = str ''<|channel|>final<|message|>''"

definition END_MARK :: pystr where
  "END_MARK = str ''<|end|>''"

definition THINK_OPEN :: pystr where
  "THINK_OPEN = str ''<think>''"

definition THINK_CLOSE :: pystr where
  "THINK_CLOSE = str ''</think>''"

text \<open>
  Group 1 of \<open><\|channel\|>final<\|message\|>(.*?)(?:<\|end\|>|$)\<close> once the two markers
  are matched: the lazy \<open>.*?\<close> (with \<open>DOTALL\<close>) grows one character at a time and stops
  at the first position where \<open><|end|>\<close> follows or \<open>$\<close> holds. Without \<open>MULTILINE\<close>,
  \<open>$\<close> holds at the end of the text and just before a newline that ends the text.
\<close>

fun final_group :: "pystr \<Rightarrow> pystr" where
  "final_group [] = []"
| "final_group (c # cs) =
     (if prefix END_MARK (c # cs) \<or> (c = 10 \<and> cs = []) then []
      else c # final_group cs)"

text \<open>
  \<open>re.search\<close> of that pattern: the leftmost occurrence of the markers always matches,
  since \<open>$\<close> is reached at the latest at the end of the text.
\<close>

definition search_final :: "pystr \<Rightarrow> pystr option" where
  "search_final text = map_option final_group (after_first FINAL_MARK text)"

text \<open>
  \<open>re.sub(r"<think>.*?</think>", "", text, flags=re.DOTALL)\<close>: at an opening tag the match
  ends with the nearest closing tag after it; with no closing tag to the right there is
  no match here.
\<close>

function sub_think :: "pystr \<Rightarrow> pystr" where
  "sub_think [] = []"
| "sub_think (c # cs) =
     (if prefix THINK_OPEN (c # cs) then
        (case after_first THINK_CLOSE (drop (length THINK_OPEN) (c # cs)) of
           Some rest \<Rightarrow> sub_think rest
         | None \<Rightarrow> c # sub_think cs)
      else c # sub_think cs)"
  by pat_completeness auto
termination
  by (relation "measure length") (auto simp: THINK_OPEN_def str_def dest!: after_first_length)

text \<open>
  \<open>re.sub(r"<\|[^>]+\|>", "", text)\<close>: after \<open><|\<close> the greedy class \<open>[^>]+\<close> runs to the
  next \<open>>\<close> (or to the end of the text) and gives characters back until \<open>|>\<close> follows.
  That \<open>>\<close> can only be the one that stopped the run, so there is a match exactly when
  the run is followed by \<open>>\<close>, ends with \<open>|\<close>, and has a character before that \<open>|\<close>.
\<close>

function sub_tags :: "pystr \<Rightarrow> pystr" where
  "sub_tags [] = []"
| "sub_tags (c # cs) =
     (if prefix (str ''<|'') (c # cs) then
        (let body = takeWhile (\<lambda>x. x \<noteq> 62) (drop 2 (c # cs));
             rest = dropWhile (\<lambda>x. x \<noteq> 62) (drop 2 (c # cs))
         in if rest \<noteq> [] \<and> 2 \<le> length body \<and> last body = 124
            then sub_tags (tl rest)
            else c # sub_tags cs)
      else c # sub_tags cs)"
  by pat_completeness auto
termination
proof (relation "measure length", goal_cases)
  case 1
  show ?case by simp
next
  case (2 c cs body rest)
  have "length (dropWhile (\<lambda>x. x \<noteq> 62) (drop 2 (c # cs))) \<le> length (c # cs)"
    by (rule order_trans [OF length_dropWhile_le]) simp
  with 2 show ?case by (cases rest) auto
next
  case (3 c cs body rest)
  show ?case by simp
next
  case (4 c cs)
  show ?case by simp
qed

text \<open>
  \<open>re.sub(r"\n{3,}", "\n\n", text)\<close>: a maximal run of three or more newlines becomes
  two newlines.
\<close>

function sub_newlines :: "pystr \<Rightarrow> pystr" where
  "sub_newlines [] = []"
| "sub_newlines (c # cs) =
     (if 3 \<le> length (takeWhile (\<lambda>x. x = 10) (c # cs))
      then 10 # 10 # sub_newlines (dropWhile (\<lambda>x. x = 10) (c # cs))
      else c # sub_newlines cs)"
  by pat_completeness auto
termination
proof (relation "measure length", goal_cases)
  case 1
  show ?case by simp
next
  case (2 c cs)
  then have "c = 10" by (auto split: if_splits)
  then show ?case by (simp add: less_Suc_eq_le length_dropWhile_le)
next
  case (3 c cs)
  show ?case by simp
qed

text \<open>
  \<open>re.sub(r"@[\w\-\.]+\s*", "", content)\<close>: an \<open>@\<close> followed by at least one token
  character is removed together with the whole run of token characters and the white
  space after it. Both repetitions are greedy and nothing follows them in the
  pattern, so nothing is given back.
\<close>

function sub_mentions :: "(nat \<Rightarrow> bool) \<Rightarrow> pystr \<Rightarrow> pystr" where
  "sub_mentions U [] = []"
| "sub_mentions U (c # cs) =
     (if c = 64 \<and> takeWhile (is_token U) cs \<noteq> []
      then sub_mentions U (dropWhile is_space (dropWhile (is_token U) cs))
      else c # sub_mentions U cs)"
  by pat_completeness auto
termination
proof (relation "measure (\<lambda>(U, s). length s)", goal_cases)
  case 1
  show ?case by simp
next
  case (2 U c cs)
  have "length (dropWhile is_space (dropWhile (is_token U) cs)) \<le> length cs"
    by (rule order_trans [OF length_dropWhile_le length_dropWhile_le])
  then show ?case by simp
next
  case (3 U c cs)
  show ?case by simp
qed

section \<open>Sanitization\<close>

text \<open>
  \<open>strip_special_tags\<close> of \<open>agent_service.py\<close>. A match object is always true, so
  \<open>if final_match\<close> asks whether the search matched.
\<close>

definition strip_special_tags :: "pystr \<Rightarrow> pystr" where
  "strip_special_tags text =
     (if text = [] then []
      else
        let text1 = (case search_final text of Some g \<Rightarrow> g | None \<Rightarrow> text);
            text2 = sub_think text1;
            text3 = sub_tags text2;
            text4 = sub_newlines text3
        in strip text4)"

section \<open>Data model\<close>

text \<open>
  Messages, users and agent configurations arrive as JSON objects and are read with
  \<open>dict.get\<close>: a key may be absent, so every field is an option. A subscript \<open>d[k]\<close> on
  an absent key raises \<open>KeyError\<close>. A value that is present has the type of the
  backend's schema: identifiers, names and contents are strings, a timestamp is an
  integer, the mentions are a list of strings. The temperature is only handed on to the
  LLM client.
\<close>

datatype py_error = KeyError pystr

record message =
  msg_id :: "pystr option"
  senderId :: "pystr option"
  content :: "pystr option"
  timestamp :: "int option"
  mentions :: "pystr list option"

record user =
  user_id :: "pystr option"
  user_name :: "pystr option"

record model_descriptor =
  provider :: "pystr option"
  model_name :: "pystr option"
  temperature :: "real option"
  maxTokens :: "int option"

record runtime_descriptor =
  endpoint :: "pystr option"
  apiKeyAlias :: "pystr option"

record agent_cfg =
  cfg_id :: "pystr option"
  systemPrompt :: "pystr option"
  model :: "model_descriptor option"
  runtime :: "runtime_descriptor option"

datatype role = System | User | Assistant

record turn =
  role :: role
  turn_content :: pystr

text \<open>The arguments of one \<open>chat_with_history\<close> call, and what the call does.\<close>

record llm_request =
  req_messages :: "turn list"
  req_model :: pystr
  req_max_tokens :: int
  req_temperature :: real

datatype llm_result = Returns pystr | Raises pystr

text \<open>The JSON body that \<open>send_message\<close> posts.\<close>

record payload =
  payload_content :: pystr
  conversationId :: pystr
  replyToId :: "pystr option"

text \<open>
  The mutable state: the fields of \<open>AgentService\<close>, the configuration of the LLM client
  that \<open>query.configure\<close> rewrites (a global of \<open>query.py\<close>), and the bodies posted to
  the backend so far, oldest first.
\<close>

record state =
  agent_id :: pystr
  agent_user_id :: pystr
  last_seen_timestamp :: int
  processed_message_ids :: "pystr option set"
  agent_config :: "agent_cfg option"
  llm_base_url :: pystr
  llm_api_key :: pystr
  posted :: "payload list"

text \<open>
  What the outside world answers while one message is handled: the agent list of
  \<open>GET /agents\<close> (\<open>None\<close> when the request fails or the status is not 200) and the
  behaviour of the LLM client on the request it is sent.
\<close>

record replies =
  agents_resp :: "agent_cfg list option"
  completion :: "llm_request \<Rightarrow> llm_result"

text \<open>
  One iteration of the poll loop: the answer to \<open>GET /messages\<close> (\<open>None\<close> when the
  request fails) and the answers of the outside world for each message handled. A
  message reaches the backend and the LLM at most once in a cycle: after its pipeline
  its identifier is processed, and an exception ends the dispatch of the cycle.
\<close>

record cycle =
  fetched :: "(message list \<times> user list) option"
  world :: "message \<Rightarrow> replies"

section \<open>Operations\<close>

text \<open>Truth of an optional string, and \<open>x or d\<close>.\<close>

definition truthy :: "pystr option \<Rightarrow> bool" where
  "truthy x = (case x of None \<Rightarrow> False | Some s \<Rightarrow> s \<noteq> [])"

definition or_else :: "pystr option \<Rightarrow> pystr \<Rightarrow> pystr" where
  "or_else x d = (case x of None \<Rightarrow> d | Some s \<Rightarrow> if s = [] then d else s)"

text \<open>\<open>d.get(k, default)\<close>\<close>

definition get_or :: "'a option \<Rightarrow> 'a \<Rightarrow> 'a" where
  "get_or x d = (case x of None \<Rightarrow> d | Some v \<Rightarrow> v)"

definition DEFAULT_BASE_URL :: pystr where
  "DEFAULT_BASE_URL = str ''https://pxh2f5j83cope2-3005.proxy.runpod.net/v1''"

definition DEFAULT_API_KEY :: pystr where
  "DEFAULT_API_KEY = str ''not-needed''"

definition CONVERSATION_ID :: pystr where
  "CONVERSATION_ID = str ''global''"

text \<open>
  \<open>AgentService.__init__\<close>; \<open>now_ms\<close> is \<open>int(time.time() * 1000)\<close> at construction.
  The base URL and the tokens only go into the requests and are left out.
\<close>

definition init_service :: "pystr \<Rightarrow> pystr \<Rightarrow> int \<Rightarrow> state" where
  "init_service aid uid now_ms =
     \<lparr>agent_id = aid, agent_user_id = uid, last_seen_timestamp = now_ms,
      processed_message_ids = {}, agent_config = None,
      llm_base_url = DEFAULT_BASE_URL, llm_api_key = DEFAULT_API_KEY, posted = []\<rparr>"

text \<open>\<open>query.configure\<close>: an argument that is true replaces the setting.\<close>

definition configure :: "state \<Rightarrow> pystr option \<Rightarrow> pystr option \<Rightarrow> state" where
  "configure st base_url api_key =
     (let st1 = (case base_url of
                   None \<Rightarrow> st
                 | Some b \<Rightarrow> if b \<noteq> [] then st\<lparr>llm_base_url := b\<rparr> else st)
      in case api_key of
           None \<Rightarrow> st1
         | Some k \<Rightarrow> if k \<noteq> [] then st1\<lparr>llm_api_key := k\<rparr> else st1)"

text \<open>
  \<open>fetch_agent_config\<close>: the first agent of the list with this agent's identifier
  replaces the cached configuration; a \<open>parallax\<close> provider with an endpoint
  reconfigures the LLM client. Every failure of the request is caught and leaves the
  state as it is.
\<close>

fun find_agent :: "pystr \<Rightarrow> agent_cfg list \<Rightarrow> agent_cfg option" where
  "find_agent aid [] = None"
| "find_agent aid (agent # agents) =
     (if cfg_id agent = Some aid then Some agent else find_agent aid agents)"

definition fetch_agent_config :: "state \<Rightarrow> agent_cfg list option \<Rightarrow> state" where
  "fetch_agent_config st resp =
     (case resp of
        None \<Rightarrow> st
      | Some agents \<Rightarrow>
          (case find_agent (agent_id st) agents of
             None \<Rightarrow> st
           | Some agent \<Rightarrow>
               let st1 = st\<lparr>agent_config := Some agent\<rparr>;
                   prov = (case model agent of None \<Rightarrow> None | Some m \<Rightarrow> provider m)
               in if prov = Some (str ''parallax'') then
                    let base_url = (case runtime agent of None \<Rightarrow> None | Some r \<Rightarrow> endpoint r);
                        api_key = or_else
                          (case runtime agent of None \<Rightarrow> None | Some r \<Rightarrow> apiKeyAlias r)
                          (str ''not-needed'')
                    in if truthy base_url then configure st1 base_url (Some api_key) else st1
                  else st1))"

text \<open>\<open>fetch_messages\<close>: every failure gives two empty lists.\<close>

definition fetch_messages :: "(message list \<times> user list) option \<Rightarrow> message list \<times> user list" where
  "fetch_messages resp = (case resp of None \<Rightarrow> ([], []) | Some r \<Rightarrow> r)"

text \<open>
  \<open>send_message\<close>: the body is posted; the key \<open>replyToId\<close> is set when the identifier
  is true. The result of the request is only logged.
\<close>

definition send_message :: "state \<Rightarrow> pystr \<Rightarrow> pystr option \<Rightarrow> state" where
  "send_message st reply reply_to_id =
     st\<lparr>posted := posted st @
          [\<lparr>payload_content = reply, conversationId = CONVERSATION_ID,
            replyToId = (if truthy reply_to_id then reply_to_id else None)\<rparr>]\<rparr>"

subsection \<open>Mention detection\<close>

text \<open>The loop of \<open>is_mentioned\<close> over the user list.\<close>

fun name_mentioned :: "pystr \<Rightarrow> pystr \<Rightarrow> user list \<Rightarrow> bool" where
  "name_mentioned uid text [] = False"
| "name_mentioned uid text (u # us) =
     (if user_id u = Some uid then
        (let agent_name = get_or (user_name u) []
         in if agent_name \<noteq> [] \<and> contains text (64 # agent_name) then True
            else name_mentioned uid text us)
      else name_mentioned uid text us)"

definition is_mentioned :: "state \<Rightarrow> message \<Rightarrow> user list \<Rightarrow> bool" where
  "is_mentioned st msg users =
     (if agent_user_id st \<in> set (get_or (mentions msg) []) then True
      else name_mentioned (agent_user_id st) (get_or (content msg) []) users)"

subsection \<open>Context building\<close>

text \<open>
  The dictionary comprehension \<open>{u["id"]: u.get("name", "User") for u in users}\<close>: a later
  user overrides an earlier one with the same identifier, and a user without the key
  \<open>id\<close> raises \<open>KeyError\<close>.
\<close>

fun build_user_map ::
  "user list \<Rightarrow> (pystr \<rightharpoonup> pystr) \<Rightarrow> py_error + (pystr \<rightharpoonup> pystr)" where
  "build_user_map [] user_map = Inr user_map"
| "build_user_map (u # us) user_map =
     (case user_id u of
        None \<Rightarrow> Inl (KeyError (str ''id''))
      | Some i \<Rightarrow> build_user_map us (user_map(i \<mapsto> get_or (user_name u) (str ''User''))))"

text \<open>\<open>messages[-10:] if len(messages) > 10 else messages\<close>\<close>

definition recent :: "message list \<Rightarrow> message list" where
  "recent messages =
     (if length messages > 10 then drop (length messages - 10) messages else messages)"

text \<open>The body of the loop of \<open>build_context\<close>: the turn made from one message.\<close>

definition context_turn ::
  "(nat \<Rightarrow> bool) \<Rightarrow> state \<Rightarrow> (pystr \<rightharpoonup> pystr) \<Rightarrow> message \<Rightarrow> message \<Rightarrow> turn" where
  "context_turn U st user_map current_msg msg =
     (let sender_id = get_or (senderId msg) [];
          sender_name = get_or (user_map sender_id) (str ''User'');
          text1 = strip_special_tags (get_or (content msg) []);
          text2 = strip (sub_mentions U text1)
      in if sender_id = agent_user_id st then \<lparr>role = Assistant, turn_content = text2\<rparr>
         else if msg_id msg = msg_id current_msg
              then \<lparr>role = User,
                    turn_content = str ''<Name: '' @ sender_name @ str ''> [asking you]: '' @ text2\<rparr>
              else \<lparr>role = User,
                    turn_content = str ''<Name: '' @ sender_name @ str ''>: '' @ text2\<rparr>)"

fun context_loop ::
  "(nat \<Rightarrow> bool) \<Rightarrow> state \<Rightarrow> (pystr \<rightharpoonup> pystr) \<Rightarrow> message \<Rightarrow> message list \<Rightarrow> turn list
   \<Rightarrow> turn list" where
  "context_loop U st user_map current_msg [] context_messages = context_messages"
| "context_loop U st user_map current_msg (msg # rest) context_messages =
     context_loop U st user_map current_msg rest
       (context_messages @ [context_turn U st user_map current_msg msg])"

definition build_context ::
  "(nat \<Rightarrow> bool) \<Rightarrow> state \<Rightarrow> message list \<Rightarrow> user list \<Rightarrow> message \<Rightarrow> py_error + turn list" where
  "build_context U st messages users current_msg =
     (case build_user_map users Map.empty of
        Inl e \<Rightarrow> Inl e
      | Inr user_map \<Rightarrow> Inr (context_loop U st user_map current_msg (recent messages) []))"

subsection \<open>Reply generation\<close>

definition default_system_prompt :: pystr where
  "default_system_prompt =
     str ''You are a helpful AI assistant in a group chat. ''
     @ str ''Respond directly and concisely to the user's message. ''
     @ str ''Do NOT include any prefix like '[GPT-4]:' or your name in responses. ''
     @ str ''Be friendly and helpful. You may respond in the user's language.''"

text \<open>
  The literal in front of the error text in the \<open>except\<close> branch of \<open>generate_reply\<close>:
  twelve code points, a Chinese sentence that says "Sorry, I ran into some problems:".
\<close>

definition FALLBACK_PREFIX :: pystr where
  "FALLBACK_PREFIX =
     [0x62B1, 0x6B49, 0xFF0C, 0x6211, 0x9047, 0x5230, 0x4E86, 0x4E00, 0x4E9B, 0x95EE,
      0x9898, 0xFF1A]"

text \<open>The arguments that \<open>generate_reply\<close> gives to \<open>chat_with_history\<close>.\<close>

definition build_request :: "state \<Rightarrow> turn list \<Rightarrow> llm_request" where
  "build_request st context_messages =
     (let config_system_prompt =
            (case agent_config st of None \<Rightarrow> None | Some cfg \<Rightarrow> systemPrompt cfg);
          system_prompt =
            \<lparr>role = System, turn_content = or_else config_system_prompt default_system_prompt\<rparr>;
          model_config = (case agent_config st of None \<Rightarrow> None | Some cfg \<Rightarrow> model cfg)
      in \<lparr>req_messages = system_prompt # context_messages,
          req_model =
            get_or (case model_config of None \<Rightarrow> None | Some m \<Rightarrow> model_name m) (str ''default''),
          req_max_tokens =
            get_or (case model_config of None \<Rightarrow> None | Some m \<Rightarrow> maxTokens m) 1024,
          req_temperature =
            get_or (case model_config of None \<Rightarrow> None | Some m \<Rightarrow> temperature m) (6 / 10)\<rparr>)"

definition generate_reply :: "state \<Rightarrow> turn list \<Rightarrow> (llm_request \<Rightarrow> llm_result) \<Rightarrow> pystr" where
  "generate_reply st context_messages chat_with_history =
     (case chat_with_history (build_request st context_messages) of
        Returns response \<Rightarrow> strip_special_tags response
      | Raises e \<Rightarrow> FALLBACK_PREFIX @ e)"

subsection \<open>Handling one message\<close>

text \<open>
  \<open>process_message\<close> returns the state it leaves behind and the exception that left
  it, if any. The only exception of the pipeline that is not caught inside it is the
  \<open>KeyError\<close> of \<open>build_context\<close>; the configuration fetched before it stays.
\<close>

definition process_message ::
  "(nat \<Rightarrow> bool) \<Rightarrow> state \<Rightarrow> replies \<Rightarrow> message \<Rightarrow> message list \<Rightarrow> user list
   \<Rightarrow> state \<times> py_error option" where
  "process_message U st env msg messages users =
     (if senderId msg = Some (agent_user_id st) then (st, None)
      else if msg_id msg \<in> processed_message_ids st then (st, None)
      else if \<not> is_mentioned st msg users then (st, None)
      else
        let st1 = fetch_agent_config st (agents_resp env)
        in case build_context U st1 messages users msg of
             Inl e \<Rightarrow> (st1, Some e)
           | Inr context_messages \<Rightarrow>
               let reply = generate_reply st1 context_messages (completion env);
                   st2 = send_message st1 reply (msg_id msg)
               in (st2\<lparr>processed_message_ids := insert (msg_id msg) (processed_message_ids st2)\<rparr>,
                   None))"

subsection \<open>The poll loop\<close>

text \<open>\<open>m.get("timestamp", 0)\<close>\<close>

definition ts :: "message \<Rightarrow> int" where
  "ts m = get_or (timestamp m) 0"

text \<open>The list comprehension of \<open>run\<close>: it keeps the order of the fetched list.\<close>

definition new_messages :: "state \<Rightarrow> message list \<Rightarrow> message list" where
  "new_messages st messages =
     [m \<leftarrow> messages. ts m > last_seen_timestamp st \<and> msg_id m \<notin> processed_message_ids st]"

text \<open>
  \<open>for msg in new_messages: self.process_message(msg, messages, users)\<close>; an exception
  ends the loop.
\<close>

fun process_all ::
  "(nat \<Rightarrow> bool) \<Rightarrow> state \<Rightarrow> (message \<Rightarrow> replies) \<Rightarrow> message list \<Rightarrow> message list \<Rightarrow> user list
   \<Rightarrow> state \<times> py_error option" where
  "process_all U st env [] messages users = (st, None)"
| "process_all U st env (msg # rest) messages users =
     (case process_message U st (env msg) msg messages users of
        (st1, None) \<Rightarrow> process_all U st1 env rest messages users
      | (st1, Some e) \<Rightarrow> (st1, Some e))"

text \<open>\<open>max(m.get("timestamp", 0) for m in messages)\<close> on a list that is not empty.\<close>

fun latest_ts :: "message list \<Rightarrow> int" where
  "latest_ts [] = 0"
| "latest_ts (m # ms) = fold (\<lambda>x acc. max acc (ts x)) ms (ts m)"

text \<open>
  One iteration of \<open>while True\<close> in \<open>run\<close>. The \<open>try\<close> block holds the dispatch loop and
  the update of the watermark, so an exception raised in the dispatch skips the update;
  \<open>except Exception\<close> then logs it and the loop goes on.
\<close>

definition run_cycle :: "(nat \<Rightarrow> bool) \<Rightarrow> state \<Rightarrow> cycle \<Rightarrow> state" where
  "run_cycle U st cyc =
     (case fetch_messages (fetched cyc) of
        (messages, users) \<Rightarrow>
          if messages \<noteq> [] then
            (case process_all U st (world cyc) (new_messages st messages) messages users of
               (st1, Some e) \<Rightarrow> st1
             | (st1, None) \<Rightarrow>
                 st1\<lparr>last_seen_timestamp := max (last_seen_timestamp st1) (latest_ts messages)\<rparr>)
          else st)"

text \<open>The first iterations of the loop, one for each entry of the list.\<close>

fun run :: "(nat \<Rightarrow> bool) \<Rightarrow> state \<Rightarrow> cycle list \<Rightarrow> state" where
  "run U st [] = st"
| "run U st (cyc # cycles) = run U (run_cycle U st cyc) cycles"

section \<open>Notions used to state the properties\<close>

text \<open>The identifier that \<open>send_message\<close> puts under \<open>replyToId\<close> when it answers a message.\<close>

definition reply_target :: "message \<Rightarrow> pystr option" where
  "reply_target m = (if truthy (msg_id m) then msg_id m else None)"


section \<open>Example inputs\<close>

text \<open>
  The agent of the specification's scenarios: user identifier \<open>llm1\<close>, display name
  \<open>Bot\<close>, watermark 50. No code point beyond ASCII counts as alphanumeric in the
  examples, which are all ASCII.
\<close>

definition ex_U :: "nat \<Rightarrow> bool" where
  "ex_U = (\<lambda>c. False)"

definition ex_agent :: state where
  "ex_agent = init_service (str ''helper-agent-1'') (str ''llm1'') 50"

definition ex_users :: "user list" where
  "ex_users =
     [\<lparr>user_id = Some (str ''llm1''), user_name = Some (str ''Bot'')\<rparr>,
      \<lparr>user_id = Some (str ''u1''), user_name = Some (str ''Alice'')\<rparr>]"

text \<open>A message of user \<open>u1\<close> with an empty mentions list.\<close>

definition ex_msg :: "string \<Rightarrow> int \<Rightarrow> string \<Rightarrow> message" where
  "ex_msg i t c =
     \<lparr>msg_id = Some (str i), senderId = Some (str ''u1''), content = Some (str c),
      timestamp = Some t, mentions = Some []\<rparr>"

text \<open>The backend has no agent list to offer; the LLM answers, or raises.\<close>

definition ex_answers :: replies where
  "ex_answers = \<lparr>agents_resp = None, completion = (\<lambda>req. Returns (str ''Hi there''))\<rparr>"

definition ex_failing :: replies where
  "ex_failing = \<lparr>agents_resp = None, completion = (\<lambda>req. Raises (str ''timeout''))\<rparr>"

definition ex_world :: "message \<Rightarrow> replies" where
  "ex_world m = ex_answers"

definition ex_cycle :: "message list \<Rightarrow> user list \<Rightarrow> cycle" where
  "ex_cycle ms us = \<lparr>fetched = Some (ms, us), world = ex_world\<rparr>"

text \<open>The state after the agent has answered message \<open>m1\<close>.\<close>

definition ex_replied :: state where
  "ex_replied =
     fst (process_message ex_U ex_agent ex_answers (ex_msg ''m1'' 100 ''@Bot hello'')
            [ex_msg ''m1'' 100 ''@Bot hello''] ex_users)"

text \<open>A message that the agent itself has sent, and that mentions the agent twice.\<close>

definition ex_own :: message where
  "ex_own =
     \<lparr>msg_id = Some (str ''m2''), senderId = Some (str ''llm1''),
      content = Some (str ''@Bot are you there''), timestamp = Some 100,
      mentions = Some [str ''llm1'']\<rparr>"

text \<open>A mention through the mentions list, and a user list whose entry has no \<open>id\<close>.\<close>

definition ex_call :: message where
  "ex_call =
     \<lparr>msg_id = Some (str ''m1''), senderId = Some (str ''u1''),
      content = Some (str ''hello''), timestamp = Some 100,
      mentions = Some [str ''llm1'']\<rparr>"

definition ex_nameless :: "user list" where
  "ex_nameless = [\<lparr>user_id = None, user_name = Some (str ''Bot'')\<rparr>]"

text \<open>Twelve messages, the last of which mentions the agent.\<close>

definition ex_history :: "message list" where
  "ex_history =
     [ex_msg ''a01'' 101 ''one'', ex_msg ''a02'' 102 ''two'', ex_msg ''a03'' 103 ''three'',
      ex_msg ''a04'' 104 ''four'', ex_msg ''a05'' 105 ''five'', ex_msg ''a06'' 106 ''six'',
      ex_msg ''a07'' 107 ''seven'', ex_msg ''a08'' 108 ''eight'', ex_msg ''a09'' 109 ''nine'',
      ex_msg ''a10'' 110 ''ten'', ex_msg ''a11'' 111 ''eleven'',
      ex_msg ''a12'' 112 ''@Bot twelve'']"

text \<open>An LLM client that answers with one letter for the role of each turn it is sent.\<close>

definition ex_roles :: "llm_request \<Rightarrow> llm_result" where
  "ex_roles req =
     Returns (map (\<lambda>t. case role t of System \<Rightarrow> 83 | User \<Rightarrow> 85 | Assistant \<Rightarrow> 65)
                (req_messages req))"

lemmas ex_defs = ex_U_def ex_agent_def ex_users_def ex_msg_def ex_answers_def ex_failing_def
  ex_world_def ex_cycle_def ex_own_def ex_call_def ex_nameless_def init_service_def

lemmas eval_defs = process_message_def is_mentioned_def get_or_def truthy_def or_else_def
  fetch_agent_config_def build_context_def recent_def context_turn_def generate_reply_def
  build_request_def send_message_def strip_special_tags_def search_final_def strip_def
  is_space_def is_token_def is_word_def FINAL_MARK_def END_MARK_def THINK_OPEN_def
  THINK_CLOSE_def str_def Let_def CONVERSATION_ID_def ts_def new_messages_def run_cycle_def
  fetch_messages_def

section \<open>Basic facts\<close>

lemma contains_iff_sublist: "contains s pat \<longleftrightarrow> sublist pat s"
  by (induction s) (simp_all add: sublist_Cons_right)

lemma contains_iff: "contains s pat \<longleftrightarrow> (\<exists>pre post. s = pre @ pat @ post)"
  by (simp add: contains_iff_sublist sublist_def)

lemma name_test_iff:
  "(get_or (user_name u) [] \<noteq> [] \<and> contains s (64 # get_or (user_name u) [])) \<longleftrightarrow>
     (\<exists>D pre post. user_name u = Some D \<and> D \<noteq> [] \<and> s = pre @ 64 # D @ post)"
  by (cases "user_name u") (auto simp: get_or_def contains_iff)

lemma name_mentioned_Cons:
  "name_mentioned uid s (u # us) \<longleftrightarrow>
     (user_id u = Some uid \<and> get_or (user_name u) [] \<noteq> []
        \<and> contains s (64 # get_or (user_name u) []))
     \<or> name_mentioned uid s us"
  by (simp add: Let_def)

lemma name_mentioned_iff:
  "name_mentioned uid s users \<longleftrightarrow>
     (\<exists>u \<in> set users. \<exists>D pre post. user_id u = Some uid \<and> user_name u = Some D \<and> D \<noteq> []
        \<and> s = pre @ 64 # D @ post)"
proof (induction users)
  case Nil
  show ?case by simp
next
  case (Cons u us)
  show ?case
    unfolding name_mentioned_Cons Cons.IH name_test_iff by (simp only: set_simps) blast
qed

text \<open>What each operation leaves alone.\<close>

lemma configure_frame:
  "agent_id (configure st b k) = agent_id st"
  "agent_user_id (configure st b k) = agent_user_id st"
  "last_seen_timestamp (configure st b k) = last_seen_timestamp st"
  "processed_message_ids (configure st b k) = processed_message_ids st"
  "agent_config (configure st b k) = agent_config st"
  "posted (configure st b k) = posted st"
  by (simp_all add: configure_def Let_def split: option.splits)

lemma fetch_agent_config_frame:
  "agent_id (fetch_agent_config st resp) = agent_id st"
  "agent_user_id (fetch_agent_config st resp) = agent_user_id st"
  "last_seen_timestamp (fetch_agent_config st resp) = last_seen_timestamp st"
  "processed_message_ids (fetch_agent_config st resp) = processed_message_ids st"
  "posted (fetch_agent_config st resp) = posted st"
  by (simp_all add: fetch_agent_config_def Let_def configure_frame split: option.splits)

lemma send_message_frame:
  "agent_id (send_message st r i) = agent_id st"
  "agent_user_id (send_message st r i) = agent_user_id st"
  "last_seen_timestamp (send_message st r i) = last_seen_timestamp st"
  "processed_message_ids (send_message st r i) = processed_message_ids st"
  "agent_config (send_message st r i) = agent_config st"
  by (simp_all add: send_message_def)

lemma process_message_frame:
  assumes "process_message U st env msg messages users = (st1, r)"
  shows "agent_user_id st1 = agent_user_id st"
    and "last_seen_timestamp st1 = last_seen_timestamp st"
    and "processed_message_ids st \<subseteq> processed_message_ids st1"
  using assms
  by (auto simp: process_message_def Let_def fetch_agent_config_frame send_message_frame
      split: if_splits sum.splits)

lemma process_all_frame:
  assumes "process_all U st env ms messages users = (st1, r)"
  shows "agent_user_id st1 = agent_user_id st \<and> last_seen_timestamp st1 = last_seen_timestamp st
    \<and> processed_message_ids st \<subseteq> processed_message_ids st1"
  using assms
proof (induction ms arbitrary: st)
  case Nil
  then show ?case by simp
next
  case (Cons m ms)
  obtain st2 r2 where pm: "process_message U st (env m) m messages users = (st2, r2)"
    by (cases "process_message U st (env m) m messages users")
  note fr = process_message_frame [OF pm]
  show ?case
  proof (cases r2)
    case None
    with Cons.prems pm have "process_all U st2 env ms messages users = (st1, r)" by simp
    from Cons.IH [OF this] fr show ?thesis by auto
  next
    case (Some e)
    with Cons.prems pm have "st1 = st2" by simp
    with fr show ?thesis by simp
  qed
qed

lemma run_cycle_frame:
  "agent_user_id (run_cycle U st cyc) = agent_user_id st"
  "processed_message_ids st \<subseteq> processed_message_ids (run_cycle U st cyc)"
  "last_seen_timestamp st \<le> last_seen_timestamp (run_cycle U st cyc)"
proof -
  obtain messages users where f: "fetch_messages (fetched cyc) = (messages, users)"
    by (cases "fetch_messages (fetched cyc)")
  obtain st1 r where pa:
    "process_all U st (world cyc) (new_messages st messages) messages users = (st1, r)"
    by (cases "process_all U st (world cyc) (new_messages st messages) messages users")
  note fr = process_all_frame [OF pa]
  show "agent_user_id (run_cycle U st cyc) = agent_user_id st"
    using fr by (simp add: run_cycle_def f pa split: option.splits)
  show "processed_message_ids st \<subseteq> processed_message_ids (run_cycle U st cyc)"
    using fr by (simp add: run_cycle_def f pa split: option.splits)
  show "last_seen_timestamp st \<le> last_seen_timestamp (run_cycle U st cyc)"
    using fr by (simp add: run_cycle_def f pa split: option.splits)
qed

lemma run_frame:
  "agent_user_id (run U st cycles) = agent_user_id st
   \<and> processed_message_ids st \<subseteq> processed_message_ids (run U st cycles)
   \<and> last_seen_timestamp st \<le> last_seen_timestamp (run U st cycles)"
proof (induction cycles arbitrary: st)
  case Nil
  show ?case by simp
next
  case (Cons cyc cycles)
  have "agent_user_id (run_cycle U st cyc) = agent_user_id st"
    and "processed_message_ids st \<subseteq> processed_message_ids (run_cycle U st cyc)"
    and "last_seen_timestamp st \<le> last_seen_timestamp (run_cycle U st cyc)"
    by (rule run_cycle_frame)+
  with Cons.IH [of "run_cycle U st cyc"] show ?case by auto
qed

lemma completed_is_processed:
  assumes "process_message U st env m messages users = (st1, None)"
    and "senderId m \<noteq> Some (agent_user_id st)" and "is_mentioned st m users"
  shows "msg_id m \<in> processed_message_ids st1"
  using assms
  by (auto simp: process_message_def Let_def fetch_agent_config_frame send_message_frame
      split: if_splits sum.splits)




text \<open>Only a user without identifier makes the pipeline raise.\<close>

lemma build_user_map_raises:
  "build_user_map users acc = Inl e \<Longrightarrow> \<exists>u \<in> set users. user_id u = None"
  by (induction users arbitrary: acc) (auto split: option.splits)






text \<open>The context loop appends one turn for each message.\<close>

lemma context_loop_map:
  "context_loop U st user_map cur ms acc = acc @ map (context_turn U st user_map cur) ms"
  by (induction ms arbitrary: acc) simp_all

lemma recent_drop: "recent messages = drop (length messages - 10) messages"
  by (simp add: recent_def)

lemma build_request_messages:
  "tl (req_messages (build_request st turns)) = turns"
  "role (hd (req_messages (build_request st turns))) = System"
  "length (req_messages (build_request st turns)) = Suc (length turns)"
  by (simp_all add: build_request_def Let_def)

text \<open>The scan for mentions starts afresh at every \<open>@\<close>.\<close>

lemma at_not_token: "\<not> is_token U 64"
  by (simp add: is_token_def is_word_def)

lemma at_not_space: "\<not> is_space 64"
  by (simp add: is_space_def)

lemma takeWhile_stop: "\<not> P x \<Longrightarrow> takeWhile P (xs @ x # ys) = takeWhile P xs"
  by (induction xs) simp_all

lemma dropWhile_stop: "\<not> P x \<Longrightarrow> dropWhile P (xs @ x # ys) = dropWhile P xs @ x # ys"
  by (induction xs) simp_all

lemma sub_mentions_cut:
  "sub_mentions U (pre @ 64 # xs) = sub_mentions U pre @ sub_mentions U (64 # xs)"
proof (induction U pre rule: sub_mentions.induct)
  case (1 U)
  show ?case by simp
next
  case (2 U c cs)
  have t: "takeWhile (is_token U) (cs @ 64 # xs) = takeWhile (is_token U) cs"
    by (rule takeWhile_stop) (rule at_not_token)
  have "dropWhile (is_token U) (cs @ 64 # xs) = dropWhile (is_token U) cs @ 64 # xs"
    by (rule dropWhile_stop) (rule at_not_token)
  moreover have "dropWhile is_space (dropWhile (is_token U) cs @ 64 # xs)
                   = dropWhile is_space (dropWhile (is_token U) cs) @ 64 # xs"
    by (rule dropWhile_stop) (rule at_not_space)
  ultimately have d: "dropWhile is_space (dropWhile (is_token U) (cs @ 64 # xs))
             = dropWhile is_space (dropWhile (is_token U) cs) @ 64 # xs"
    by simp
  show ?case
  proof (cases "c = 64 \<and> takeWhile (is_token U) cs \<noteq> []")
    case True
    have "sub_mentions U ((c # cs) @ 64 # xs)
            = sub_mentions U (dropWhile is_space (dropWhile (is_token U) (cs @ 64 # xs)))"
      using True by (simp add: t)
    also have "\<dots> = sub_mentions U (dropWhile is_space (dropWhile (is_token U) cs) @ 64 # xs)"
      by (simp only: d)
    also have "\<dots> = sub_mentions U (dropWhile is_space (dropWhile (is_token U) cs))
                       @ sub_mentions U (64 # xs)"
      using "2.IH"(1) True by simp
    also have "\<dots> = sub_mentions U (c # cs) @ sub_mentions U (64 # xs)"
      using True by simp
    finally show ?thesis .
  next
    case False
    have "sub_mentions U ((c # cs) @ 64 # xs) = c # sub_mentions U (cs @ 64 # xs)"
      using False by (auto simp: t)
    also have "\<dots> = c # sub_mentions U cs @ sub_mentions U (64 # xs)"
      using "2.IH"(2) False by auto
    also have "\<dots> = sub_mentions U (c # cs) @ sub_mentions U (64 # xs)"
      using False by auto
    finally show ?thesis .
  qed
qed

text \<open>What is posted, and in which order.\<close>

lemma process_message_posted:
  assumes "process_message U st env m messages users = (st1, r)"
  shows "posted st1 = posted st
         \<or> (\<exists>p. posted st1 = posted st @ [p] \<and> replyToId p = reply_target m)"
  using assms
  by (auto simp: process_message_def Let_def fetch_agent_config_frame send_message_def
      reply_target_def split: if_splits sum.splits)

lemma process_all_posted:
  assumes "process_all U st env ms messages users = (st1, r)"
  shows "\<exists>extra replied. posted st1 = posted st @ extra \<and> subseq replied ms
           \<and> map replyToId extra = map reply_target replied"
  using assms
proof (induction ms arbitrary: st)
  case Nil
  then have "posted st1 = posted st @ [] \<and> subseq [] ([]::message list)
      \<and> map replyToId [] = map reply_target []" by simp
  then show ?case by blast
next
  case (Cons m ms)
  obtain st2 r2 where pm: "process_message U st (env m) m messages users = (st2, r2)"
    by (cases "process_message U st (env m) m messages users")
  from process_message_posted [OF pm]
  obtain e1 r1 where one: "posted st2 = posted st @ e1" "r1 = [] \<or> r1 = [m]"
      "map replyToId e1 = map reply_target r1"
  proof
    assume "posted st2 = posted st"
    then have "posted st2 = posted st @ []" "[] = [] \<or> [] = [m]"
      "map replyToId ([]::payload list) = map reply_target []" by simp_all
    then show ?thesis by (rule that)
  next
    assume "\<exists>p. posted st2 = posted st @ [p] \<and> replyToId p = reply_target m"
    then obtain p where "posted st2 = posted st @ [p]" "replyToId p = reply_target m" by blast
    then have "posted st2 = posted st @ [p]" "[m] = [] \<or> [m] = [m]"
      "map replyToId [p] = map reply_target [m]" by simp_all
    then show ?thesis by (rule that)
  qed
  show ?case
  proof (cases r2)
    case None
    with Cons.prems pm have "process_all U st2 env ms messages users = (st1, r)" by simp
    from Cons.IH [OF this] obtain e2 r2' where rest: "posted st1 = posted st2 @ e2"
      "subseq r2' ms" "map replyToId e2 = map reply_target r2'" by blast
    from one(2) rest(2) have "subseq (r1 @ r2') (m # ms)" by auto
    moreover from one rest have "posted st1 = posted st @ (e1 @ e2)"
      "map replyToId (e1 @ e2) = map reply_target (r1 @ r2')" by simp_all
    ultimately show ?thesis by blast
  next
    case (Some e)
    with Cons.prems pm have "st1 = st2" by simp
    moreover from one(2) have "subseq r1 (m # ms)" by auto
    ultimately show ?thesis using one by blast
  qed
qed

lemma run_cycle_posted:
  "\<exists>extra replied. posted (run_cycle U st cyc) = posted st @ extra
     \<and> subseq replied (new_messages st (fst (fetch_messages (fetched cyc))))
     \<and> map replyToId extra = map reply_target replied"
proof -
  obtain messages users where f: "fetch_messages (fetched cyc) = (messages, users)"
    by (cases "fetch_messages (fetched cyc)")
  obtain st1 r where pa:
    "process_all U st (world cyc) (new_messages st messages) messages users = (st1, r)"
    by (cases "process_all U st (world cyc) (new_messages st messages) messages users")
  have p: "posted (run_cycle U st cyc) = posted st1"
  proof (cases "messages = []")
    case True
    with pa show ?thesis by (simp add: run_cycle_def f new_messages_def)
  next
    case False
    then show ?thesis by (cases r) (simp_all add: run_cycle_def f pa)
  qed
  from process_all_posted [OF pa] show ?thesis by (simp add: p f)
qed

lemma new_messages_after: "m \<in> set (new_messages st messages) \<Longrightarrow> last_seen_timestamp st < ts m"
  by (simp add: new_messages_def)

lemma new_messages_subset: "m \<in> set (new_messages st messages) \<Longrightarrow> m \<in> set messages"
  by (simp add: new_messages_def)

lemma subseq_member: "subseq xs ys \<Longrightarrow> x \<in> set xs \<Longrightarrow> x \<in> set ys"
  by (erule list_emb_set) auto

lemma run_cycle_replies:
  assumes "p \<in> set (posted (run_cycle U st cyc))"
  shows "p \<in> set (posted st)
         \<or> (\<exists>m \<in> set (fst (fetch_messages (fetched cyc))).
               last_seen_timestamp st < ts m \<and> replyToId p = reply_target m)"
proof -
  from run_cycle_posted [of U st cyc] obtain extra replied where
    e: "posted (run_cycle U st cyc) = posted st @ extra"
      "subseq replied (new_messages st (fst (fetch_messages (fetched cyc))))"
      "map replyToId extra = map reply_target replied" by blast
  show ?thesis
  proof (cases "p \<in> set (posted st)")
    case False
    with assms e(1) have "p \<in> set extra" by simp
    then have "replyToId p \<in> set (map reply_target replied)"
      unfolding e(3) [symmetric] by simp
    then obtain m where m: "m \<in> set replied" "replyToId p = reply_target m" by auto
    from subseq_member [OF e(2) m(1)]
    have "m \<in> set (new_messages st (fst (fetch_messages (fetched cyc))))" .
    with m(2) new_messages_after new_messages_subset show ?thesis by blast
  qed simp
qed

lemma run_replies:
  assumes "p \<in> set (posted (run U st cycles))"
  shows "p \<in> set (posted st)
         \<or> (\<exists>cyc \<in> set cycles. \<exists>m \<in> set (fst (fetch_messages (fetched cyc))).
               last_seen_timestamp st < ts m \<and> replyToId p = reply_target m)"
  using assms
proof (induction cycles arbitrary: st)
  case Nil
  then show ?case by simp
next
  case (Cons cyc cycles)
  have w: "last_seen_timestamp st \<le> last_seen_timestamp (run_cycle U st cyc)"
    by (rule run_cycle_frame)
  from Cons.prems have "p \<in> set (posted (run U (run_cycle U st cyc) cycles))" by simp
  from Cons.IH [OF this] show ?case
  proof
    assume "p \<in> set (posted (run_cycle U st cyc))"
    from run_cycle_replies [OF this] show ?thesis by auto
  next
    assume "\<exists>c \<in> set cycles. \<exists>m \<in> set (fst (fetch_messages (fetched c))).
               last_seen_timestamp (run_cycle U st cyc) < ts m \<and> replyToId p = reply_target m"
    with w show ?thesis by fastforce
  qed
qed

section \<open>Idempotence\<close>

text \<open>
  C1. Once the identifier of a message is in the processed set, \<open>process_message\<close> on
  any message that carries this identifier is a no-op, now and after any number of
  further poll cycles: it raises nothing and returns the state as it was, so nothing is
  posted, and the watermark, the processed set and the cached configuration are
  unchanged, whatever the message says, whatever the fetch returned with it and
  whatever the backend and the LLM would answer.
\<close>

theorem processed_is_noop:
  assumes "msg_id m \<in> processed_message_ids st"
  shows "process_message U (run U st cycles) env m messages users = (run U st cycles, None)"
proof -
  from assms run_frame [of U st cycles]
  have "msg_id m \<in> processed_message_ids (run U st cycles)" by blast
  then show ?thesis by (simp add: process_message_def)
qed

text \<open>
  The agent has answered \<open>m1\<close>; one poll cycle later a message with the same identifier
  and another mention comes back.
\<close>

theorem processed_is_noop_witness:
  "msg_id (ex_msg ''m1'' 200 ''@Bot again'') \<in> processed_message_ids ex_replied
   \<and> process_message ex_U
        (run ex_U ex_replied [ex_cycle [ex_msg ''m9'' 300 ''@Bot next''] ex_users])
        ex_answers (ex_msg ''m1'' 200 ''@Bot again'') [ex_msg ''m1'' 200 ''@Bot again''] ex_users
      = (run ex_U ex_replied [ex_cycle [ex_msg ''m9'' 300 ''@Bot next''] ex_users], None)"
proof -
  have h: "msg_id (ex_msg ''m1'' 200 ''@Bot again'') \<in> processed_message_ids ex_replied"
    by (simp add: ex_replied_def ex_defs eval_defs)
  from h processed_is_noop [OF h] show ?thesis by blast
qed

section \<open>Watermark\<close>




section \<open>Self-mute\<close>

text \<open>
  C3. A message whose sender is the agent's own user identifier is dropped at once:
  \<open>process_message\<close> raises nothing and returns the state as it was, so nothing is posted
  and the identifier is not added to the processed set, whatever the mentions list and
  the content of the message are.
\<close>

theorem self_mute:
  assumes "senderId m = Some (agent_user_id st)"
  shows "process_message U st env m messages users = (st, None)"
  using assms by (simp add: process_message_def)

text \<open>The agent's own message mentions the agent in the list and by name.\<close>

theorem self_mute_witness:
  "senderId ex_own = Some (agent_user_id ex_agent)
   \<and> is_mentioned ex_agent ex_own ex_users
   \<and> process_message ex_U ex_agent ex_answers ex_own [ex_own] ex_users = (ex_agent, None)"
proof -
  have h: "senderId ex_own = Some (agent_user_id ex_agent)"
    by (simp add: ex_defs)
  have "is_mentioned ex_agent ex_own ex_users"
    by (simp add: ex_defs is_mentioned_def get_or_def)
  with h self_mute [OF h] show ?thesis by blast
qed

section \<open>Dispatch order\<close>




section \<open>Context window\<close>

text \<open>
  C5. \<open>build_context\<close> raises only when a user of the list has no identifier. Otherwise
  it produces exactly 10 turns when there are more than 10 messages, and one turn for
  each message when there are 10 or fewer; the turns are made, in order, from the last
  10 messages of the list. \<open>generate_reply\<close> calls the LLM client, whatever the client
  is, on exactly one request, and its reply is made from the answer to this request; the
  turns of the request are one system turn followed by the turns of \<open>build_context\<close>.
\<close>

theorem context_window:
  "(case build_context U st messages users cur of
      Inl e \<Rightarrow> \<exists>u \<in> set users. user_id u = None
    | Inr turns \<Rightarrow>
        (10 < length messages \<longrightarrow> length turns = 10)
        \<and> (length messages \<le> 10 \<longrightarrow> length turns = length messages)
        \<and> (\<exists>user_map. build_user_map users Map.empty = Inr user_map
              \<and> turns = map (context_turn U st user_map cur)
                          (drop (length messages - 10) messages))
        \<and> (\<forall>chat. generate_reply st turns chat
              = (case chat (build_request st turns) of
                   Returns response \<Rightarrow> strip_special_tags response
                 | Raises e \<Rightarrow> FALLBACK_PREFIX @ e))
        \<and> req_messages (build_request st turns)
            = \<lparr>role = System,
               turn_content =
                 or_else (case agent_config st of None \<Rightarrow> None | Some cfg \<Rightarrow> systemPrompt cfg)
                   default_system_prompt\<rparr> # turns
        \<and> length (req_messages (build_request st turns)) = Suc (length turns))"
proof (cases "build_user_map users Map.empty")
  case (Inl e)
  with build_user_map_raises [OF Inl] show ?thesis by (simp add: build_context_def)
next
  case (Inr user_map)
  have "\<forall>chat. generate_reply st turns chat
              = (case chat (build_request st turns) of
                   Returns response \<Rightarrow> strip_special_tags response
                 | Raises e \<Rightarrow> FALLBACK_PREFIX @ e)" for turns
    by (simp add: generate_reply_def)
  moreover have "req_messages (build_request st turns)
            = \<lparr>role = System,
               turn_content =
                 or_else (case agent_config st of None \<Rightarrow> None | Some cfg \<Rightarrow> systemPrompt cfg)
                   default_system_prompt\<rparr> # turns" for turns
    by (simp add: build_request_def Let_def)
  ultimately show ?thesis using Inr
    by (simp add: build_context_def context_loop_map recent_drop build_request_messages)
qed

text \<open>
  Twelve messages: the turns are made from the third to the twelfth, and the client that
  answers with the roles it is sent sees one system turn and ten user turns.
\<close>

theorem context_window_witness:
  "length ex_history = 12
   \<and> (\<exists>turns. build_context ex_U ex_agent ex_history ex_users (ex_msg ''a12'' 112 ''@Bot twelve'')
        = Inr turns
       \<and> length turns = 10
       \<and> length (req_messages (build_request ex_agent turns)) = 11
       \<and> generate_reply ex_agent turns ex_roles = str ''SUUUUUUUUUU''
       \<and> map turn_content turns =
           [str ''<Name: Alice>: three'', str ''<Name: Alice>: four'', str ''<Name: Alice>: five'',
            str ''<Name: Alice>: six'', str ''<Name: Alice>: seven'', str ''<Name: Alice>: eight'',
            str ''<Name: Alice>: nine'', str ''<Name: Alice>: ten'', str ''<Name: Alice>: eleven'',
            str ''<Name: Alice> [asking you]: twelve''])"
proof -
  have l: "length ex_history = 12" by (simp add: ex_history_def)
  obtain turns where t:
    "build_context ex_U ex_agent ex_history ex_users (ex_msg ''a12'' 112 ''@Bot twelve'') = Inr turns"
    by (cases "build_context ex_U ex_agent ex_history ex_users (ex_msg ''a12'' 112 ''@Bot twelve'')")
      (simp_all add: build_context_def ex_users_def)
  from context_window [where U = ex_U and st = ex_agent and messages = ex_history
      and users = ex_users and cur = "ex_msg ''a12'' 112 ''@Bot twelve''"]
  have n: "length turns = 10"
    "length (req_messages (build_request ex_agent turns)) = Suc (length turns)"
    and g: "generate_reply ex_agent turns ex_roles
              = (case ex_roles (build_request ex_agent turns) of
                   Returns response \<Rightarrow> strip_special_tags response
                 | Raises e \<Rightarrow> FALLBACK_PREFIX @ e)"
    and q: "req_messages (build_request ex_agent turns)
            = \<lparr>role = System,
               turn_content =
                 or_else (case agent_config ex_agent of None \<Rightarrow> None | Some cfg \<Rightarrow> systemPrompt cfg)
                   default_system_prompt\<rparr> # turns"
    by (simp_all add: t l)
  from t have c: "map turn_content turns =
           [str ''<Name: Alice>: three'', str ''<Name: Alice>: four'', str ''<Name: Alice>: five'',
            str ''<Name: Alice>: six'', str ''<Name: Alice>: seven'', str ''<Name: Alice>: eight'',
            str ''<Name: Alice>: nine'', str ''<Name: Alice>: ten'', str ''<Name: Alice>: eleven'',
            str ''<Name: Alice> [asking you]: twelve'']"
    by (auto simp add: ex_history_def ex_defs eval_defs)
  from t have r: "map role turns = [User, User, User, User, User, User, User, User, User, User]"
    by (auto simp add: ex_history_def ex_defs eval_defs)
  have "map (\<lambda>t. case role t of System \<Rightarrow> 83 | User \<Rightarrow> 85 | Assistant \<Rightarrow> 65) turns
          = map (\<lambda>x. case x of System \<Rightarrow> 83 | User \<Rightarrow> 85 | Assistant \<Rightarrow> (65::nat)) (map role turns)"
    by (simp add: comp_def)
  then have "ex_roles (build_request ex_agent turns) = Returns (str ''SUUUUUUUUUU'')"
    by (simp add: ex_roles_def q r str_def)
  then have "generate_reply ex_agent turns ex_roles = str ''SUUUUUUUUUU''"
    unfolding g
    by (simp add: strip_special_tags_def search_final_def FINAL_MARK_def END_MARK_def
        THINK_OPEN_def THINK_CLOSE_def strip_def is_space_def str_def)
  with l t n c show ?thesis by simp
qed

section \<open>Mention stripping\<close>

text \<open>
  C6, as amended. The substitution that \<open>build_context\<close> applies to the content of each
  message removes a mention wherever it stands, not only at the beginning: for every
  text in front of it, an \<open>@\<close> followed by a token character (a word character, a hyphen
  or a dot) is removed together with the whole run of token characters and the white
  space after the run, and the scan goes on behind them. The content of a turn is the
  sanitized content of the message after this substitution and a final \<open>strip\<close>, with
  nothing in front of it for a message of the agent, and behind the name label of the
  sender otherwise.
\<close>

theorem mentions_removed_everywhere:
  assumes "is_token U c"
  shows "sub_mentions U (pre @ 64 # c # rest)
           = sub_mentions U pre
             @ sub_mentions U (dropWhile is_space (dropWhile (is_token U) (c # rest)))
         \<and> turn_content (context_turn U st user_map cur msg)
             = (if get_or (senderId msg) [] = agent_user_id st then []
                else str ''<Name: ''
                     @ get_or (user_map (get_or (senderId msg) [])) (str ''User'')
                     @ (if msg_id msg = msg_id cur then str ''> [asking you]: ''
                        else str ''>: ''))
               @ strip (sub_mentions U (strip_special_tags (get_or (content msg) [])))"
proof -
  have "sub_mentions U (64 # c # rest)
          = sub_mentions U (dropWhile is_space (dropWhile (is_token U) (c # rest)))"
    using assms by simp
  then have "sub_mentions U (pre @ 64 # c # rest)
           = sub_mentions U pre
             @ sub_mentions U (dropWhile is_space (dropWhile (is_token U) (c # rest)))"
    by (simp add: sub_mentions_cut)
  moreover have "turn_content (context_turn U st user_map cur msg)
             = (if get_or (senderId msg) [] = agent_user_id st then []
                else str ''<Name: ''
                     @ get_or (user_map (get_or (senderId msg) [])) (str ''User'')
                     @ (if msg_id msg = msg_id cur then str ''> [asking you]: ''
                        else str ''>: ''))
               @ strip (sub_mentions U (strip_special_tags (get_or (content msg) [])))"
    by (simp add: context_turn_def Let_def)
  ultimately show ?thesis by simp
qed

text \<open>
  A mention in the middle of the sentence and one at its end are both removed, from the
  text and from the turn made of a message with this text.
\<close>

theorem mentions_removed_everywhere_witness:
  "is_token ex_U 66
   \<and> sub_mentions ex_U (str ''hello @Bot there, @Bob'') = str ''hello there, ''
   \<and> turn_content
       (context_turn ex_U ex_agent Map.empty (ex_msg ''m1'' 100 ''@Bot hello'')
          (ex_msg ''m2'' 90 ''hello @Bot there, @Bob''))
       = str ''<Name: User>: hello there,''"
proof -
  have h: "is_token ex_U 66" by (simp add: is_token_def is_word_def)
  have a: "str ''hello @Bot there, @Bob'' = str ''hello '' @ 64 # 66 # str ''ot there, @Bob''"
    by (simp add: str_def)
  have b: "sub_mentions ex_U (str ''hello '') = str ''hello ''"
    by (simp add: str_def)
  have c: "sub_mentions ex_U
             (dropWhile is_space (dropWhile (is_token ex_U) (66 # str ''ot there, @Bob'')))
             = str ''there, ''"
    by (simp add: str_def is_token_def is_word_def is_space_def ex_U_def)
  note w = mentions_removed_everywhere [OF h, where pre = "str ''hello ''"
      and rest = "str ''ot there, @Bob''" and st = ex_agent and user_map = Map.empty
      and cur = "ex_msg ''m1'' 100 ''@Bot hello''"
      and msg = "ex_msg ''m2'' 90 ''hello @Bot there, @Bob''"]
  from w have s: "sub_mentions ex_U (str ''hello @Bot there, @Bob'') = str ''hello there, ''"
    unfolding a b c by (simp add: str_def)
  have e: "strip_special_tags (str ''hello @Bot there, @Bob'') = str ''hello @Bot there, @Bob''"
    by (simp add: strip_special_tags_def search_final_def FINAL_MARK_def END_MARK_def
        THINK_OPEN_def THINK_CLOSE_def strip_def is_space_def str_def)
  have f: "get_or (content (ex_msg ''m2'' 90 ''hello @Bot there, @Bob'')) []
             = str ''hello @Bot there, @Bob''"
    by (simp add: ex_msg_def get_or_def)
  from w have "turn_content
       (context_turn ex_U ex_agent Map.empty (ex_msg ''m1'' 100 ''@Bot hello'')
          (ex_msg ''m2'' 90 ''hello @Bot there, @Bob''))
       = str ''<Name: User>: hello there,''"
    unfolding f e s
    by (simp add: ex_msg_def ex_agent_def init_service_def get_or_def strip_def is_space_def
        str_def)
  with h s show ?thesis by simp
qed

text \<open>
  The claim without the amendment fails. The content \<open>hello @Bot there\<close> has its mention
  in the middle of the sentence, after no leading run; the turn that \<open>build_context\<close>
  makes from it reads \<open>hello there\<close>, and \<open>@Bot\<close> is gone.
\<close>

theorem leading_only_counterexample:
  "build_context ex_U ex_agent [ex_msg ''m1'' 100 ''hello @Bot there''] ex_users
     (ex_msg ''m1'' 100 ''hello @Bot there'')
     = Inr [\<lparr>role = User, turn_content = str ''<Name: Alice> [asking you]: hello there''\<rparr>]
   \<and> \<not> contains (str ''<Name: Alice> [asking you]: hello there'') (str ''@Bot'')"
  by (simp add: ex_defs eval_defs)

section \<open>Mention detection\<close>

text \<open>
  C7. \<open>is_mentioned\<close> is true exactly when the mentions list of the message contains the
  agent's user identifier, or some entry of the user list has the agent's user
  identifier and a display name \<open>D\<close> that is not empty, and the content of the message
  contains \<open>@\<close> followed by \<open>D\<close>, compared code point by code point. With the user \<open>llm1\<close>
  named \<open>Bot\<close> and an empty mentions list, the content \<open>@Bob hey @Bot can you help\<close> is a
  mention and \<open>hello everyone\<close> is not.
\<close>

theorem is_mentioned_iff:
  "(is_mentioned st msg users \<longleftrightarrow>
      agent_user_id st \<in> set (get_or (mentions msg) [])
      \<or> (\<exists>u \<in> set users. \<exists>D pre post.
            user_id u = Some (agent_user_id st) \<and> user_name u = Some D \<and> D \<noteq> []
            \<and> get_or (content msg) [] = pre @ 64 # D @ post))
   \<and> is_mentioned ex_agent (ex_msg ''m1'' 100 ''@Bob hey @Bot can you help'')
        [\<lparr>user_id = Some (str ''llm1''), user_name = Some (str ''Bot'')\<rparr>]
   \<and> \<not> is_mentioned ex_agent (ex_msg ''m1'' 100 ''hello everyone'')
        [\<lparr>user_id = Some (str ''llm1''), user_name = Some (str ''Bot'')\<rparr>]"
proof (intro conjI)
  show "is_mentioned st msg users \<longleftrightarrow>
      agent_user_id st \<in> set (get_or (mentions msg) [])
      \<or> (\<exists>u \<in> set users. \<exists>D pre post.
            user_id u = Some (agent_user_id st) \<and> user_name u = Some D \<and> D \<noteq> []
            \<and> get_or (content msg) [] = pre @ 64 # D @ post)"
    unfolding is_mentioned_def name_mentioned_iff by auto
  show "is_mentioned ex_agent (ex_msg ''m1'' 100 ''@Bob hey @Bot can you help'')
        [\<lparr>user_id = Some (str ''llm1''), user_name = Some (str ''Bot'')\<rparr>]"
    by (simp add: is_mentioned_def ex_defs get_or_def str_def)
  show "\<not> is_mentioned ex_agent (ex_msg ''m1'' 100 ''hello everyone'')
        [\<lparr>user_id = Some (str ''llm1''), user_name = Some (str ''Bot'')\<rparr>]"
    by (simp add: is_mentioned_def ex_defs get_or_def str_def)
qed

text \<open>A mention by name at the end of the content, with an empty mentions list.\<close>

theorem is_mentioned_iff_witness:
  "is_mentioned ex_agent (ex_msg ''m3'' 100 ''thanks @Bot'') ex_users
   \<and> agent_user_id ex_agent \<notin> set (get_or (mentions (ex_msg ''m3'' 100 ''thanks @Bot'')) [])
   \<and> (\<exists>u \<in> set ex_users. \<exists>D pre post.
            user_id u = Some (agent_user_id ex_agent) \<and> user_name u = Some D \<and> D \<noteq> []
            \<and> get_or (content (ex_msg ''m3'' 100 ''thanks @Bot'')) [] = pre @ 64 # D @ post)"
proof -
  have m: "is_mentioned ex_agent (ex_msg ''m3'' 100 ''thanks @Bot'') ex_users"
    by (simp add: is_mentioned_def ex_defs get_or_def str_def)
  have n: "agent_user_id ex_agent \<notin> set (get_or (mentions (ex_msg ''m3'' 100 ''thanks @Bot'')) [])"
    by (simp add: ex_defs get_or_def)
  from m n is_mentioned_iff [of ex_agent "ex_msg ''m3'' 100 ''thanks @Bot''" ex_users]
  show ?thesis by blast
qed

section \<open>LLM failure\<close>

text \<open>
  C8, as amended. A message passes the three gates of \<open>process_message\<close>, its context is
  built, and the LLM client raises an exception with text \<open>e\<close> on the request. Then
  \<open>generate_reply\<close> does not raise: it returns the twelve code points of the Chinese
  sentence U+62B1 U+6B49 U+FF0C U+6211 U+9047 U+5230 U+4E86 U+4E00 U+4E9B U+95EE U+9898
  U+FF1A (in English "Sorry, I ran into some problems:") followed by \<open>e\<close>. This reply is
  not empty and contains \<open>e\<close>; \<open>process_message\<close> raises nothing, posts exactly this reply
  as the answer to the message, and marks the message processed.
\<close>

theorem llm_failure_fallback:
  assumes "senderId m \<noteq> Some (agent_user_id st)"
    and "msg_id m \<notin> processed_message_ids st"
    and "is_mentioned st m users"
    and "build_context U (fetch_agent_config st (agents_resp env)) messages users m = Inr turns"
    and "completion env (build_request (fetch_agent_config st (agents_resp env)) turns) = Raises e"
  shows "generate_reply (fetch_agent_config st (agents_resp env)) turns (completion env)
           = [0x62B1, 0x6B49, 0xFF0C, 0x6211, 0x9047, 0x5230, 0x4E86, 0x4E00, 0x4E9B, 0x95EE,
              0x9898, 0xFF1A] @ e
         \<and> [0x62B1, 0x6B49, 0xFF0C, 0x6211, 0x9047, 0x5230, 0x4E86, 0x4E00, 0x4E9B, 0x95EE,
            0x9898, 0xFF1A] @ e \<noteq> []
         \<and> contains
             ([0x62B1, 0x6B49, 0xFF0C, 0x6211, 0x9047, 0x5230, 0x4E86, 0x4E00, 0x4E9B, 0x95EE,
               0x9898, 0xFF1A] @ e) e
         \<and> (\<exists>st1. process_message U st env m messages users = (st1, None)
               \<and> posted st1 = posted st @
                    [\<lparr>payload_content =
                        [0x62B1, 0x6B49, 0xFF0C, 0x6211, 0x9047, 0x5230, 0x4E86, 0x4E00, 0x4E9B,
                         0x95EE, 0x9898, 0xFF1A] @ e,
                      conversationId = str ''global'', replyToId = reply_target m\<rparr>]
               \<and> msg_id m \<in> processed_message_ids st1)"
proof -
  let ?st0 = "fetch_agent_config st (agents_resp env)"
  have g: "generate_reply ?st0 turns (completion env) = FALLBACK_PREFIX @ e"
    using assms(5) by (simp add: generate_reply_def)
  have n: "FALLBACK_PREFIX @ e \<noteq> []" by (simp add: FALLBACK_PREFIX_def)
  have "sublist e (FALLBACK_PREFIX @ e)" by (rule suffix_imp_sublist) (simp add: suffix_def)
  then have c: "contains (FALLBACK_PREFIX @ e) e" by (simp add: contains_iff_sublist)
  have p: "process_message U st env m messages users
        = ((send_message ?st0 (FALLBACK_PREFIX @ e) (msg_id m))
             \<lparr>processed_message_ids :=
                insert (msg_id m)
                  (processed_message_ids (send_message ?st0 (FALLBACK_PREFIX @ e) (msg_id m)))\<rparr>,
           None)"
    using assms(1-4) g by (simp add: process_message_def Let_def)
  have "posted (send_message ?st0 (FALLBACK_PREFIX @ e) (msg_id m)) = posted st @
                    [\<lparr>payload_content = FALLBACK_PREFIX @ e, conversationId = str ''global'',
                      replyToId = reply_target m\<rparr>]"
    by (simp add: send_message_def reply_target_def fetch_agent_config_frame CONVERSATION_ID_def)
  with g n c p show ?thesis unfolding FALLBACK_PREFIX_def by simp
qed

text \<open>The LLM client raises \<open>timeout\<close> while \<open>m1\<close> is answered.\<close>

theorem llm_failure_fallback_witness:
  "senderId (ex_msg ''m1'' 100 ''@Bot hello'') \<noteq> Some (agent_user_id ex_agent)
   \<and> msg_id (ex_msg ''m1'' 100 ''@Bot hello'') \<notin> processed_message_ids ex_agent
   \<and> is_mentioned ex_agent (ex_msg ''m1'' 100 ''@Bot hello'') ex_users
   \<and> build_context ex_U (fetch_agent_config ex_agent (agents_resp ex_failing))
        [ex_msg ''m1'' 100 ''@Bot hello''] ex_users (ex_msg ''m1'' 100 ''@Bot hello'')
       = Inr [\<lparr>role = User, turn_content = str ''<Name: Alice> [asking you]: hello''\<rparr>]
   \<and> completion ex_failing
        (build_request (fetch_agent_config ex_agent (agents_resp ex_failing))
           [\<lparr>role = User, turn_content = str ''<Name: Alice> [asking you]: hello''\<rparr>])
       = Raises (str ''timeout'')
   \<and> (\<exists>st1. process_message ex_U ex_agent ex_failing (ex_msg ''m1'' 100 ''@Bot hello'')
               [ex_msg ''m1'' 100 ''@Bot hello''] ex_users = (st1, None)
          \<and> posted st1 =
               [\<lparr>payload_content =
                   [0x62B1, 0x6B49, 0xFF0C, 0x6211, 0x9047, 0x5230, 0x4E86, 0x4E00, 0x4E9B,
                    0x95EE, 0x9898, 0xFF1A] @ str ''timeout'',
                 conversationId = str ''global'', replyToId = Some (str ''m1'')\<rparr>]
          \<and> msg_id (ex_msg ''m1'' 100 ''@Bot hello'') \<in> processed_message_ids st1)"
proof -
  let ?m = "ex_msg ''m1'' 100 ''@Bot hello''"
  have h1: "senderId ?m \<noteq> Some (agent_user_id ex_agent)" by (simp add: ex_defs str_def)
  have h2: "msg_id ?m \<notin> processed_message_ids ex_agent" by (simp add: ex_defs)
  have h3: "is_mentioned ex_agent ?m ex_users"
    by (simp add: ex_defs is_mentioned_def get_or_def str_def)
  have h4: "build_context ex_U (fetch_agent_config ex_agent (agents_resp ex_failing))
        [?m] ex_users ?m
       = Inr [\<lparr>role = User, turn_content = str ''<Name: Alice> [asking you]: hello''\<rparr>]"
    by (simp add: ex_defs eval_defs)
  have h5: "completion ex_failing
        (build_request (fetch_agent_config ex_agent (agents_resp ex_failing))
           [\<lparr>role = User, turn_content = str ''<Name: Alice> [asking you]: hello''\<rparr>])
       = Raises (str ''timeout'')"
    by (simp add: ex_failing_def)
  have r: "reply_target ?m = Some (str ''m1'')"
    by (simp add: reply_target_def truthy_def ex_msg_def str_def)
  have p: "posted ex_agent = []" by (simp add: ex_defs)
  from llm_failure_fallback [OF h1 h2 h3 h4 h5] h1 h2 h3 h4 h5
  show ?thesis by (simp add: r p)
qed

text \<open>
  The claim without the amendment fails. When the LLM client raises \<open>timeout\<close> while \<open>m1\<close>
  is answered, the reply that is posted is the Chinese sentence followed by \<open>timeout\<close>;
  it is not the text \<open>Sorry, I ran into a problem: timeout\<close>.
\<close>

theorem english_wording_counterexample:
  "map payload_content
     (posted (fst (process_message ex_U ex_agent ex_failing (ex_msg ''m1'' 100 ''@Bot hello'')
                     [ex_msg ''m1'' 100 ''@Bot hello''] ex_users)))
     = [[0x62B1, 0x6B49, 0xFF0C, 0x6211, 0x9047, 0x5230, 0x4E86, 0x4E00, 0x4E9B, 0x95EE, 0x9898,
         0xFF1A] @ str ''timeout'']
   \<and> map payload_content
     (posted (fst (process_message ex_U ex_agent ex_failing (ex_msg ''m1'' 100 ''@Bot hello'')
                     [ex_msg ''m1'' 100 ''@Bot hello''] ex_users)))
     \<noteq> [str ''Sorry, I ran into a problem: timeout'']"
  by (simp add: ex_defs eval_defs FALLBACK_PREFIX_def)

section \<open>Sanitization examples\<close>

text \<open>
  C9. The two examples of the specification: the text with an analysis channel, an end
  marker, a start marker and a final channel sanitizes to exactly \<open>Hello\<close>, and the text
  with a think block sanitizes to exactly \<open>Answer\<close>.
\<close>

theorem strip_special_tags_examples:
  "strip_special_tags
     (str ''<|channel|>analysis<|message|>ignored<|end|><|start|>assistant<|channel|>final<|message|>Hello<|end|>'')
     = str ''Hello''
   \<and> strip_special_tags (str ''<think>reasoning</think>Answer'') = str ''Answer''"
  by (simp add: strip_special_tags_def search_final_def FINAL_MARK_def END_MARK_def
      THINK_OPEN_def THINK_CLOSE_def strip_def is_space_def str_def)

section \<open>Startup cutoff\<close>

text \<open>
  C10. The constructor sets the watermark to the start time, and the configuration fetch
  at startup leaves it there. The poll loop dispatches only messages whose timestamp is
  strictly greater than the watermark of the moment. Hence, after any number of poll
  cycles from startup, every message that the next cycle dispatches has a timestamp
  strictly greater than the start time, and every reply posted so far answers a fetched
  message whose timestamp is strictly greater than the start time.
\<close>

theorem startup_cutoff:
  "last_seen_timestamp (init_service aid uid now) = now
   \<and> last_seen_timestamp (fetch_agent_config (init_service aid uid now) resp) = now
   \<and> (\<forall>m \<in> set (new_messages st messages). last_seen_timestamp st < ts m)
   \<and> (\<forall>m \<in> set (new_messages
                   (run U (fetch_agent_config (init_service aid uid now) resp) cycles) messages).
        now < ts m)
   \<and> (\<forall>p \<in> set (posted (run U (fetch_agent_config (init_service aid uid now) resp) cycles)).
        \<exists>cyc \<in> set cycles. \<exists>m \<in> set (fst (fetch_messages (fetched cyc))).
          now < ts m \<and> replyToId p = reply_target m)"
proof (intro conjI ballI)
  let ?st0 = "fetch_agent_config (init_service aid uid now) resp"
  show i: "last_seen_timestamp (init_service aid uid now) = now"
    by (simp add: init_service_def)
  then show w: "last_seen_timestamp ?st0 = now"
    by (simp add: fetch_agent_config_frame)
  show "last_seen_timestamp st < ts m" if "m \<in> set (new_messages st messages)" for m
    using that by (rule new_messages_after)
  show "now < ts m" if "m \<in> set (new_messages (run U ?st0 cycles) messages)" for m
  proof -
    from run_frame [of U ?st0 cycles] w have "now \<le> last_seen_timestamp (run U ?st0 cycles)"
      by simp
    with new_messages_after [OF that] show ?thesis by simp
  qed
  show "\<exists>cyc \<in> set cycles. \<exists>m \<in> set (fst (fetch_messages (fetched cyc))).
          now < ts m \<and> replyToId p = reply_target m"
    if "p \<in> set (posted (run U ?st0 cycles))" for p
  proof -
    have "posted ?st0 = []" by (simp add: fetch_agent_config_frame init_service_def)
    with run_replies [OF that] w show ?thesis by simp
  qed
qed

text \<open>
  The agent starts at time 150. The first cycle fetches timestamps 100 and 200, both
  mentions: only the second is answered. Of the timestamps 100, 200 and 300 the next
  cycle dispatches only 300.
\<close>

theorem startup_cutoff_witness:
  "new_messages
     (run ex_U (fetch_agent_config (init_service (str ''helper-agent-1'') (str ''llm1'') 150) None)
        [ex_cycle [ex_msg ''a'' 100 ''@Bot one'', ex_msg ''b'' 200 ''@Bot two''] ex_users])
     [ex_msg ''a'' 100 ''@Bot one'', ex_msg ''b'' 200 ''@Bot two'', ex_msg ''c'' 300 ''@Bot three'']
     = [ex_msg ''c'' 300 ''@Bot three'']
   \<and> (150::int) < ts (ex_msg ''c'' 300 ''@Bot three'')
   \<and> map replyToId
       (posted
         (run ex_U (fetch_agent_config (init_service (str ''helper-agent-1'') (str ''llm1'') 150) None)
            [ex_cycle [ex_msg ''a'' 100 ''@Bot one'', ex_msg ''b'' 200 ''@Bot two''] ex_users]))
       = [Some (str ''b'')]"
proof -
  let ?cs = "[ex_cycle [ex_msg ''a'' 100 ''@Bot one'', ex_msg ''b'' 200 ''@Bot two''] ex_users]"
  let ?st = "run ex_U
    (fetch_agent_config (init_service (str ''helper-agent-1'') (str ''llm1'') 150) None) ?cs"
  let ?ms = "[ex_msg ''a'' 100 ''@Bot one'', ex_msg ''b'' 200 ''@Bot two'',
              ex_msg ''c'' 300 ''@Bot three'']"
  have n: "new_messages ?st ?ms = [ex_msg ''c'' 300 ''@Bot three'']"
    by (simp add: ex_defs eval_defs)
  have p: "map replyToId (posted ?st) = [Some (str ''b'')]"
    by (simp add: ex_defs eval_defs)
  have "ex_msg ''c'' 300 ''@Bot three'' \<in> set (new_messages ?st ?ms)" by (simp only: n) simp
  with startup_cutoff [where aid = "str ''helper-agent-1''" and uid = "str ''llm1''"
      and now = 150 and resp = None and U = ex_U and messages = ?ms and cycles = ?cs]
  have "(150::int) < ts (ex_msg ''c'' 300 ''@Bot three'')" by blast
  with n p show ?thesis by simp
qed

end
